theory Spec2Isabelle
  imports Complex_Main
begin

section \<open>Static content lists\<close>

text \<open>
  The landing page is one React component tree. Its state-bearing behaviour is a handful
  of \<open>useState\<close> cells updated by button handlers and browser timers. Each cell is
  modelled by the type of its values, each handler by the function it passes to the
  state setter, and each timer by an explicit entry in a model of the browser's timer table.

  The screenshot lists: only the fields the handlers and the view read are kept
  (the display label is text shown to the user and is never inspected).
\<close>

datatype shot_mode = ModeList | ModeDetail | ModeMetrics

record shot =
  shot_id :: string
  shot_src :: "string option"
  shot_mode :: "shot_mode option"

definition HERO_SHOTS :: "shot list" where
  "HERO_SHOTS =
    [\<lparr>shot_id = ''inicio'', shot_src = Some ''/shots/inicio-paciente.png'', shot_mode = None\<rparr>,
     \<lparr>shot_id = ''medicos'', shot_src = Some ''/shots/mis-medicos.png'', shot_mode = None\<rparr>]"

definition APP_SHOTS :: "shot list" where
  "APP_SHOTS =
    [\<lparr>shot_id = ''inicio'', shot_src = Some ''/shots/inicio-paciente.png'',
      shot_mode = Some ModeDetail\<rparr>,
     \<lparr>shot_id = ''turnos'', shot_src = Some ''/shots/turnos-recepcion.png'',
      shot_mode = Some ModeList\<rparr>,
     \<lparr>shot_id = ''metricas'', shot_src = Some ''/shots/metricas-direccion.png'',
      shot_mode = Some ModeMetrics\<rparr>]"

section \<open>Screenshot sliders\<close>

text \<open>
  \<open>heroIndex\<close> and \<open>shotIndex\<close> are \<open>useState(0)\<close> cells. The three kinds of button pass
  these updaters to the setter:
  \<^item> dot \<open>i\<close>: \<open>setHeroIndex(i)\<close>;
  \<^item> previous: \<open>p === 0 ? HERO_SHOTS.length - 1 : p - 1\<close>;
  \<^item> next: \<open>(p + 1) % HERO_SHOTS.length\<close>.
  The index is a natural number; the subtraction \<open>p - 1\<close> is only reached when \<open>p\<close> is
  not \<open>0\<close>.
\<close>

definition heroIndex_init :: nat where
  "heroIndex_init = 0"

definition setHeroIndex_select :: "nat \<Rightarrow> nat \<Rightarrow> nat" where
  "setHeroIndex_select i p = i"

definition setHeroIndex_prev :: "nat \<Rightarrow> nat" where
  "setHeroIndex_prev p = (if p = 0 then length HERO_SHOTS - 1 else p - 1)"

definition setHeroIndex_next :: "nat \<Rightarrow> nat" where
  "setHeroIndex_next p = (p + 1) mod length HERO_SHOTS"

definition shotIndex_init :: nat where
  "shotIndex_init = 0"

definition setShotIndex_select :: "nat \<Rightarrow> nat \<Rightarrow> nat" where
  "setShotIndex_select i prev = i"

definition setShotIndex_prev :: "nat \<Rightarrow> nat" where
  "setShotIndex_prev prev = (if prev = 0 then length APP_SHOTS - 1 else prev - 1)"

definition setShotIndex_next :: "nat \<Rightarrow> nat" where
  "setShotIndex_next prev = (prev + 1) mod length APP_SHOTS"

section \<open>Timed rotation controllers\<close>

text \<open>
  \<open>setInterval(cb, ms)\<close> registers a repeating browser timer. The model keeps what the
  browser keeps for it: the period, the time at which the callback runs next, and whether
  \<open>clearInterval\<close> has been called on it. A cleared timer never runs its callback again.
\<close>

record interval =
  period :: nat
  due :: nat
  cleared :: bool

definition setInterval :: "nat \<Rightarrow> nat \<Rightarrow> interval" where
  "setInterval now ms = \<lparr>period = ms, due = now + ms, cleared = False\<rparr>"

definition clearInterval :: "interval \<Rightarrow> interval" where
  "clearInterval t = t\<lparr>cleared := True\<rparr>"

definition interval_fired :: "interval \<Rightarrow> interval" where
  "interval_fired t = t\<lparr>due := due t + period t\<rparr>"

text \<open>
  A rotation controller is a \<open>useState\<close> cell together with the interval its effect
  registers on mount. A tick runs the interval's callback, which applies the updater
  \<open>upd\<close> to the cell; a user selection calls the setter with a value and touches nothing
  else; the effect's cleanup clears the interval.
\<close>

record 'a rotation =
  current :: 'a
  timer :: interval

datatype 'a rot_event = Tick | Select 'a

definition on_tick :: "('a \<Rightarrow> 'a) \<Rightarrow> 'a rotation \<Rightarrow> 'a rotation" where
  "on_tick upd s =
     (if cleared (timer s) then s
      else s\<lparr>current := upd (current s), timer := interval_fired (timer s)\<rparr>)"

definition on_select :: "'a \<Rightarrow> 'a rotation \<Rightarrow> 'a rotation" where
  "on_select v s = s\<lparr>current := v\<rparr>"

definition on_unmount :: "'a rotation \<Rightarrow> 'a rotation" where
  "on_unmount s = s\<lparr>timer := clearInterval (timer s)\<rparr>"

fun rot_step :: "('a \<Rightarrow> 'a) \<Rightarrow> 'a rotation \<Rightarrow> 'a rot_event \<Rightarrow> 'a rotation" where
  "rot_step upd s Tick = on_tick upd s"
| "rot_step upd s (Select v) = on_select v s"

definition rot_run :: "('a \<Rightarrow> 'a) \<Rightarrow> 'a rotation \<Rightarrow> 'a rot_event list \<Rightarrow> 'a rotation" where
  "rot_run upd s evs = foldl (rot_step upd) s evs"

subsection \<open>Hero phrase cycle\<close>

text \<open>
  \<open>setHeroTextIndex((prev) => (prev + 1) % heroPhrases.length)\<close> every 3000 ms.
  Characters outside ASCII are written by their code unit.
\<close>

definition heroPhrases :: "string list" where
  "heroPhrases =
    [''atender mejor'', ''cuidar el tiempo'', ''cuidar a las personas'',
     ''hacer m'' @ [CHR 0xE1] @ ''s justo el acceso'']"

definition setHeroTextIndex_tick :: "nat \<Rightarrow> nat" where
  "setHeroTextIndex_tick prev = (prev + 1) mod length heroPhrases"

definition heroText_mount :: "nat rotation" where
  "heroText_mount = \<lparr>current = 0, timer = setInterval 0 3000\<rparr>"

definition heroText_after :: "nat \<Rightarrow> nat rotation" where
  "heroText_after N = rot_run setHeroTextIndex_tick heroText_mount (replicate N Tick)"

subsection \<open>Quote carousel\<close>

text \<open>
  \<open>setIndex((prev) => (prev + 1) % quotes.length)\<close> every 5000 ms. Of each quote the
  highlight is kept; the carousel has no handler that sets the index.
\<close>

definition quotes :: "string list" where
  "quotes =
    [''19M de argentinos'', ''8.000+ centros de salud'',
     ''45% abre todo el d'' @ [CHR 0xED] @ ''a'']"

definition setIndex_tick :: "nat \<Rightarrow> nat" where
  "setIndex_tick prev = (prev + 1) mod length quotes"

definition QuoteCarousel_mount :: "nat rotation" where
  "QuoteCarousel_mount = \<lparr>current = 0, timer = setInterval 0 5000\<rparr>"

definition QuoteCarousel_after :: "nat \<Rightarrow> nat rotation" where
  "QuoteCarousel_after N = rot_run setIndex_tick QuoteCarousel_mount (replicate N Tick)"

subsection \<open>Demo tabs\<close>

text \<open>
  The cell holds one of three string literals, an enumeration. The interval callback
  (every 4000 ms) finds the current tab's position with \<open>indexOf\<close>, which answers \<open>-1\<close>
  for a value that is not in the array, and moves to \<open>tabs[(currentIndex + 1) % 3]\<close>.
  The dividend is never negative, so JavaScript's remainder agrees with \<open>mod\<close>.
  The tab buttons call \<open>setDemoTab(t)\<close>.
\<close>

datatype demo_tab = Recepcion | Consultorio | Direccion

definition tabs :: "demo_tab list" where
  "tabs = [Recepcion, Consultorio, Direccion]"

fun indexOf_from :: "'a list \<Rightarrow> 'a \<Rightarrow> int \<Rightarrow> int" where
  "indexOf_from [] x i = - 1"
| "indexOf_from (y # ys) x i = (if y = x then i else indexOf_from ys x (i + 1))"

definition indexOf :: "'a list \<Rightarrow> 'a \<Rightarrow> int" where
  "indexOf xs x = indexOf_from xs x 0"

definition setDemoTab_tick :: "demo_tab \<Rightarrow> demo_tab" where
  "setDemoTab_tick prev =
     (let currentIndex = indexOf tabs prev;
          nextIndex = (currentIndex + 1) mod int (length tabs)
      in tabs ! nat nextIndex)"

definition demoTab_mount :: "demo_tab rotation" where
  "demoTab_mount = \<lparr>current = Recepcion, timer = setInterval 0 4000\<rparr>"

definition demoTab_run :: "demo_tab rot_event list \<Rightarrow> demo_tab rotation" where
  "demoTab_run evs = rot_run setDemoTab_tick demoTab_mount evs"

section \<open>Lead-capture form\<close>

text \<open>
  The form owns a \<open>useState(false)\<close> cell \<open>formSent\<close> and a ref \<open>formTimer\<close> that holds
  the handle of a browser timeout, or \<open>null\<close>. The browser side is modelled by a clock in
  milliseconds, the table of pending timeouts in order of registration, and the next handle
  \<open>window.setTimeout\<close> will hand out (handles are positive). Every timeout this component
  registers has the same callback, \<open>() => setFormSent(false)\<close>, so a table entry is a handle
  and a due time.
\<close>

record timeout =
  handle :: nat
  fires_at :: nat

record form_state =
  formSent :: bool
  formTimer :: "nat option"
  page_mounted :: bool
  clock :: nat
  timeouts :: "timeout list"
  next_handle :: nat

definition form_init :: form_state where
  "form_init =
     \<lparr>formSent = False, formTimer = None, page_mounted = True,
      clock = 0, timeouts = [], next_handle = 1\<rparr>"

definition setTimeout :: "nat \<Rightarrow> form_state \<Rightarrow> nat \<times> form_state" where
  "setTimeout ms s =
     (next_handle s,
      s\<lparr>timeouts := timeouts s @ [\<lparr>handle = next_handle s, fires_at = clock s + ms\<rparr>],
        next_handle := next_handle s + 1\<rparr>)"

definition clearTimeout :: "nat \<Rightarrow> form_state \<Rightarrow> form_state" where
  "clearTimeout h s = s\<lparr>timeouts := filter (\<lambda>t. handle t \<noteq> h) (timeouts s)\<rparr>"

definition setFormSent :: "bool \<Rightarrow> form_state \<Rightarrow> form_state" where
  \<comment> \<open>a state update on an unmounted component is dropped\<close>
  "setFormSent b s = (if page_mounted s then s\<lparr>formSent := b\<rparr> else s)"

text \<open>
  The submit event carries the form's controls. \<open>new FormData(form)\<close> lists the name and
  value of every control that has a name; \<open>Object.fromEntries\<close> stores them one after the
  other, so a later entry replaces an earlier one of the same name.
\<close>

record control =
  control_name :: "string option"
  control_value :: string

record submit_event =
  currentTarget :: "control list"
  defaultPrevented :: bool

definition preventDefault :: "submit_event \<Rightarrow> submit_event" where
  "preventDefault e = e\<lparr>defaultPrevented := True\<rparr>"

definition FormData :: "control list \<Rightarrow> (string \<times> string) list" where
  "FormData cs =
     concat (map (\<lambda>c. case control_name c of None \<Rightarrow> [] | Some n \<Rightarrow> [(n, control_value c)]) cs)"

definition fromEntries :: "(string \<times> string) list \<Rightarrow> (string \<rightharpoonup> string)" where
  "fromEntries es = foldl (\<lambda>m (k, v). m(k \<mapsto> v)) Map.empty es"

text \<open>The ten named controls of the form, in document order, filled with the given values.\<close>

definition lead_form_names :: "string list" where
  "lead_form_names =
     [''centro'', ''provincia'', ''localidad'', ''direccion'', ''pacientes'', ''turnos'',
      ''contacto'', ''whatsapp'', ''email'', ''comentarios'']"

definition lead_form :: "string list \<Rightarrow> control list" where
  "lead_form vs =
     map (\<lambda>(n, v). \<lparr>control_name = Some n, control_value = v\<rparr>) (zip lead_form_names vs)"

text \<open>
  The submit handler, statement by statement: \<open>e.preventDefault()\<close>; gather the data;
  \<open>setFormSent(true)\<close>; \<open>formTimer.current = window.setTimeout(() => setFormSent(false), 12000)\<close>.
  The subject and body strings it also builds are not used (the \<open>window.open\<close> call is
  commented out).
\<close>

record submit_result =
  event_after :: submit_event
  data :: "string \<rightharpoonup> string"
  state_after :: form_state

definition onSubmit :: "submit_event \<Rightarrow> form_state \<Rightarrow> submit_result" where
  "onSubmit e s =
     (let e1 = preventDefault e;
          formData = FormData (currentTarget e);
          d = fromEntries formData;
          s1 = setFormSent True s;
          (h, s2) = setTimeout 12000 s1
      in \<lparr>event_after = e1, data = d, state_after = s2\<lparr>formTimer := Some h\<rparr>\<rparr>)"

definition onClick_enviar_otra :: "form_state \<Rightarrow> form_state" where
  "onClick_enviar_otra s = setFormSent False s"

text \<open>
  The effect's cleanup on unmount: \<open>if (formTimer.current) window.clearTimeout(formTimer.current)\<close>.
  \<open>null\<close> and \<open>0\<close> are falsy.
\<close>

definition cleanup :: "form_state \<Rightarrow> form_state" where
  "cleanup s =
     (case formTimer s of
        None \<Rightarrow> s
      | Some h \<Rightarrow> if h \<noteq> 0 then clearTimeout h s else s)"

text \<open>
  Time passing: the clock advances, every timeout that has come due leaves the table and
  runs its callback, in order of registration.
\<close>

definition elapse :: "nat \<Rightarrow> form_state \<Rightarrow> form_state" where
  "elapse ms s =
     (let t = clock s + ms;
          ready = filter (\<lambda>x. fires_at x \<le> t) (timeouts s);
          rest = filter (\<lambda>x. \<not> fires_at x \<le> t) (timeouts s)
      in foldl (\<lambda>s' x. setFormSent False s') (s\<lparr>clock := t, timeouts := rest\<rparr>) ready)"

text \<open>
  What the user and the browser can do. The form element exists only while \<open>formSent\<close> is
  false and the button "Enviar otra" only while it is true, so a submit or a click in the
  other view does not happen.
\<close>

datatype form_event = Submit "control list" | EnviarOtra | Elapse nat | Unmount

fun form_step :: "form_state \<Rightarrow> form_event \<Rightarrow> form_state" where
  "form_step s (Submit cs) =
     (if page_mounted s \<and> \<not> formSent s
      then state_after (onSubmit \<lparr>currentTarget = cs, defaultPrevented = False\<rparr> s) else s)"
| "form_step s EnviarOtra =
     (if page_mounted s \<and> formSent s then onClick_enviar_otra s else s)"
| "form_step s (Elapse ms) = elapse ms s"
| "form_step s Unmount =
     (if page_mounted s then (cleanup s)\<lparr>page_mounted := False\<rparr> else s)"

definition form_run :: "form_state \<Rightarrow> form_event list \<Rightarrow> form_state" where
  "form_run s evs = foldl form_step s evs"

section \<open>Image tile with fallback\<close>

text \<open>
  \<open>PhotoTile\<close> takes a tone (default \<open>"blue"\<close>) and an optional image reference, and owns
  a \<open>useState(false)\<close> cell \<open>imgError\<close> that the image's \<open>onError\<close> handler sets. The model
  renders the 44-unit picture region: either the image, or the placeholder made of a
  gradient layer whose class is looked up in \<open>toneMap\<close> and a fixed texture layer. A lookup
  that finds nothing yields \<open>undefined\<close>, which string concatenation prints as such.
\<close>

datatype tone = Blue | Violet | Amber

fun tone_key :: "tone \<Rightarrow> string" where
  "tone_key Blue = ''blue''"
| "tone_key Violet = ''violet''"
| "tone_key Amber = ''amber''"

record photo_props =
  title :: string
  desc :: string
  tone_prop :: "tone option"
  imageSrc :: "string option"

definition toneMap :: "(string \<times> string) list" where
  "toneMap =
     [(''blue'', ''from-slate-900/10 via-blue-900/10 to-cyan-900/10''),
      (''violet'', ''from-slate-900/10 via-purple-900/10 to-fuchsia-900/10''),
      (''amber'', ''from-slate-900/10 via-orange-900/10 to-amber-900/10'')]"

definition texture :: string where
  "texture = ''radial-gradient(circle at 20% 10%, rgba(0,0,0,0.14) 0, rgba(0,0,0,0) 45%), ''
     @ ''radial-gradient(circle at 80% 35%, rgba(0,0,0,0.12) 0, rgba(0,0,0,0) 40%), ''
     @ ''radial-gradient(circle at 35% 90%, rgba(0,0,0,0.10) 0, rgba(0,0,0,0) 42%)''"

datatype tile_region =
  ImageRegion string string
| PlaceholderRegion string string

definition Boolean_string :: "string option \<Rightarrow> bool" where
  \<comment> \<open>\<open>Boolean(x)\<close> for \<open>x : string | undefined\<close>: undefined and the empty string are falsy\<close>
  "Boolean_string x = (case x of None \<Rightarrow> False | Some v \<Rightarrow> v \<noteq> [])"

definition string_of_lookup :: "string option \<Rightarrow> string" where
  "string_of_lookup x = (case x of None \<Rightarrow> ''undefined'' | Some v \<Rightarrow> v)"

definition imgError_init :: bool where
  "imgError_init = False"

definition onError :: "bool \<Rightarrow> bool" where
  \<comment> \<open>\<open>onError={() => setImgError(true)}\<close>\<close>
  "onError imgError = True"

definition PhotoTile :: "photo_props \<Rightarrow> bool \<Rightarrow> tile_region" where
  "PhotoTile props imgError =
     (let tone = (case tone_prop props of None \<Rightarrow> Blue | Some t \<Rightarrow> t);
          showImage = (Boolean_string (imageSrc props) \<and> \<not> imgError)
      in if showImage
         then ImageRegion (string_of_lookup (imageSrc props)) (title props)
         else PlaceholderRegion
                (''absolute inset-0 bg-gradient-to-br '' @
                   string_of_lookup (map_of toneMap (tone_key tone)))
                texture)"

section \<open>Theme toggle\<close>

text \<open>
  \<open>ThemeToggle\<close> reads the current theme from the provider (a string, or undefined) and
  owns a \<open>useState(false)\<close> cell \<open>mounted\<close> that an effect sets after the first mount. It
  returns \<open>null\<close> while the cell is false, and three buttons otherwise. \<open>cn\<close> joins the class
  names that are truthy with a space.
\<close>

fun join :: "string \<Rightarrow> string list \<Rightarrow> string" where
  "join sep [] = []"
| "join sep [x] = x"
| "join sep (x # y # ys) = x @ sep @ join sep (y # ys)"

definition cn :: "string option list \<Rightarrow> string" where
  "cn classes = join '' '' (filter (\<lambda>c. c \<noteq> []) (List.map_filter (\<lambda>c. c) classes))"

record toggle_button =
  aria_label :: string
  sets_theme :: string
  className :: string

definition inactive_class :: string where
  "inactive_class = ''text-black/50 dark:text-white/50 hover:text-black dark:hover:text-white''"

definition mounted_init :: bool where
  "mounted_init = False"

definition mount_effect :: "bool \<Rightarrow> bool" where
  \<comment> \<open>\<open>useEffect(() => { setMounted(true); }, [])\<close>\<close>
  "mount_effect mounted = True"

definition ThemeToggle :: "string option \<Rightarrow> bool \<Rightarrow> toggle_button list option" where
  "ThemeToggle theme mounted =
     (if \<not> mounted then None
      else Some
        [\<lparr>aria_label = ''Light Mode'', sets_theme = ''light'',
          className = cn [Some ''rounded-full p-2 transition-all'',
            Some (if theme = Some ''light'' then ''bg-white text-black shadow-md scale-105''
                  else inactive_class)]\<rparr>,
         \<lparr>aria_label = ''Dark Mode'', sets_theme = ''dark'',
          className = cn [Some ''rounded-full p-2 transition-all'',
            Some (if theme = Some ''dark'' then ''bg-black text-white shadow-md scale-105''
                  else inactive_class)]\<rparr>,
         \<lparr>aria_label = ''System Mode'', sets_theme = ''system'',
          className = cn [Some ''rounded-full p-2 transition-all'',
            Some (if theme = Some ''system''
                  then ''bg-zinc-200 dark:bg-zinc-700 text-black dark:text-white shadow-md scale-105''
                  else inactive_class)]\<rparr>])"

definition styled_inactive :: "toggle_button \<Rightarrow> bool" where
  "styled_inactive b =
     (className b = cn [Some ''rounded-full p-2 transition-all'', Some inactive_class])"

section \<open>Circular progress gauge\<close>

text \<open>
  \<open>CircularMetric\<close> computes three numbers and hands them to the ring: the dash array
  (the circumference), the dash offset before the ring is in view (the circumference, an
  empty ring) and the dash offset once in view. JavaScript numbers are read as real
  numbers here; rounding of doubles is not part of the model.
\<close>

definition radius :: real where
  "radius = 32"

definition circumference :: real where
  "circumference = 2 * pi * radius"

definition offset :: "real \<Rightarrow> real" where
  "offset v = circumference - (v / 100) * circumference"

record ring =
  strokeDasharray :: real
  initial_strokeDashoffset :: real
  whileInView_strokeDashoffset :: real

definition CircularMetric :: "real \<Rightarrow> ring" where
  "CircularMetric v =
     \<lparr>strokeDasharray = circumference,
      initial_strokeDashoffset = circumference,
      whileInView_strokeDashoffset = offset v\<rparr>"

definition filled_arc :: "ring \<Rightarrow> real" where
  \<comment> \<open>the visible part of a dashed stroke: dash length minus the offset shifted out\<close>
  "filled_arc r = strokeDasharray r - whileInView_strokeDashoffset r"

section \<open>Scroll-triggered counter\<close>

text \<open>
  \<open>AnimatedCounter\<close> takes a value that is a number or a string, and an optional suffix.
  A JavaScript number is \<open>NaN\<close>, an infinity, or a finite value; every finite double is a
  rational, so the finite values are embedded in the rationals.

  Two functions of the JavaScript runtime are used and are parameters of the model, with
  the source's names: \<open>parseFloat\<close>, from strings to numbers, and \<open>toLocaleString\<close>, which
  prints a number in the browser's locale. Nothing is assumed about either.

  For a string the target is \<open>parseFloat(value.replace(/[^0-9.]/g, ""))\<close>. The global
  replace substitutes every character matched by the class; the class \<open>[^0-9.]\<close> matches a
  character that is neither in the range \<open>0\<close> to \<open>9\<close> nor a dot.
\<close>

datatype number = NaN | Infinity | NegInfinity | Num rat

record runtime =
  parseFloat :: "string \<Rightarrow> number"
  toLocaleString :: "number \<Rightarrow> string"

datatype counter_value = Number number | Text string

record counter_props =
  value_prop :: counter_value
  suffix_prop :: "string option"

definition suffix :: "counter_props \<Rightarrow> string" where
  \<comment> \<open>the parameter default \<open>suffix = ""\<close>\<close>
  "suffix props = (case suffix_prop props of None \<Rightarrow> [] | Some x \<Rightarrow> x)"

definition is_digit :: "char \<Rightarrow> bool" where
  "is_digit c = ((48::nat) \<le> of_char c \<and> of_char c \<le> (57::nat))"

definition non_numeric :: "char \<Rightarrow> bool" where
  "non_numeric c = (\<not> (is_digit c \<or> c = CHR ''.''))"

definition replace_all :: "(char \<Rightarrow> bool) \<Rightarrow> string \<Rightarrow> string \<Rightarrow> string" where
  "replace_all cls rep s = concat (map (\<lambda>c. if cls c then rep else [c]) s)"

definition numericValue :: "runtime \<Rightarrow> counter_value \<Rightarrow> number" where
  "numericValue rt v =
     (case v of
        Text s \<Rightarrow> parseFloat rt (replace_all non_numeric [] s)
      | Number n \<Rightarrow> n)"

text \<open>The natural number a run of decimal digits denotes, most significant digit first.\<close>

definition digits_value :: "string \<Rightarrow> nat" where
  "digits_value ds = foldl (\<lambda>a c. 10 * a + (of_char c - 48)) 0 ds"

text \<open>
  The component's state: the flag of \<open>useInView(ref, {once: true})\<close>, the motion value
  (initially \<open>0\<close>), the text of the span, and the calls of \<open>motionValue.set\<close> made so far, each
  of which starts the spring towards its argument.

  With \<open>once: true\<close> the hook sets its flag on the first report that the element is in the
  viewport and stops observing; the flag is never cleared. The first effect has the flag
  among its dependencies, so it runs again only when the flag has changed, and sets the
  motion value if the flag is true. The second effect's listener writes
  \<open>Math.floor(latest).toLocaleString() + suffix\<close> into the span on every change the spring
  reports; the span is attached for as long as the component is mounted.
\<close>

record counter_state =
  isInView :: bool
  motionValue :: number
  set_calls :: "number list"
  textContent :: string

definition useInView_once :: "bool \<Rightarrow> bool \<Rightarrow> bool" where
  "useInView_once inView intersecting = (inView \<or> intersecting)"

definition motionValue_set :: "number \<Rightarrow> counter_state \<Rightarrow> counter_state" where
  "motionValue_set v s = s\<lparr>motionValue := v, set_calls := set_calls s @ [v]\<rparr>"

definition inView_effect :: "runtime \<Rightarrow> counter_props \<Rightarrow> counter_state \<Rightarrow> counter_state" where
  "inView_effect rt props s =
     (if isInView s then motionValue_set (numericValue rt (value_prop props)) s else s)"

definition AnimatedCounter_mount :: "runtime \<Rightarrow> counter_props \<Rightarrow> counter_state" where
  "AnimatedCounter_mount rt props =
     inView_effect rt props
       \<lparr>isInView = False, motionValue = Num 0, set_calls = [],
        textContent = ''0'' @ suffix props\<rparr>"

definition on_intersect ::
    "runtime \<Rightarrow> counter_props \<Rightarrow> bool \<Rightarrow> counter_state \<Rightarrow> counter_state" where
  "on_intersect rt props intersecting s =
     (let v = useInView_once (isInView s) intersecting
      in if v = isInView s then s else inView_effect rt props (s\<lparr>isInView := v\<rparr>))"

definition Math_floor :: "number \<Rightarrow> number" where
  "Math_floor x = (case x of Num q \<Rightarrow> Num (of_int \<lfloor>q\<rfloor>) | _ \<Rightarrow> x)"

definition on_spring_change ::
    "runtime \<Rightarrow> counter_props \<Rightarrow> number \<Rightarrow> counter_state \<Rightarrow> counter_state" where
  "on_spring_change rt props latest s =
     s\<lparr>textContent := toLocaleString rt (Math_floor latest) @ suffix props\<rparr>"

datatype counter_event = Intersect bool | SpringChange number

fun counter_step ::
    "runtime \<Rightarrow> counter_props \<Rightarrow> counter_state \<Rightarrow> counter_event \<Rightarrow> counter_state" where
  "counter_step rt props s (Intersect b) = on_intersect rt props b s"
| "counter_step rt props s (SpringChange latest) = on_spring_change rt props latest s"

definition counter_run ::
    "runtime \<Rightarrow> counter_props \<Rightarrow> counter_event list \<Rightarrow> counter_state" where
  "counter_run rt props evs =
     foldl (counter_step rt props) (AnimatedCounter_mount rt props) evs"

text \<open>
  The trigger state the counter can be in: not yet in view and never set, or in view and
  set exactly once, to the numeric target.
\<close>

definition counter_inv :: "runtime \<Rightarrow> counter_props \<Rightarrow> counter_state \<Rightarrow> bool" where
  "counter_inv rt props s =
     (if isInView s then set_calls s = [numericValue rt (value_prop props)]
      else set_calls s = [])"

section \<open>Properties\<close>

lemma length_HERO_SHOTS: "length HERO_SHOTS = 2"
  by (simp add: HERO_SHOTS_def)

lemma length_APP_SHOTS: "length APP_SHOTS = 3"
  by (simp add: APP_SHOTS_def)

subsection \<open>Sliders: previous and next are inverse rotations\<close>

lemma prev_branch_is_mod:
  fixes p L :: nat
  assumes "p < L"
  shows "(if p = 0 then L - 1 else p - 1) = (p + L - 1) mod L"
proof (cases "p = 0")
  case True
  with assms show ?thesis by simp
next
  case False
  then have "p + L - 1 = (p - 1) + L" by simp
  then have "(p + L - 1) mod L = (p - 1) mod L" by (simp only: mod_add_self2)
  moreover from assms have "(p - 1) mod L = p - 1" by simp
  ultimately show ?thesis using False by simp
qed

lemma next_after_prev:
  fixes p L :: nat
  assumes "p < L"
  shows "((if p = 0 then L - 1 else p - 1) + 1) mod L = p"
  using assms by (cases "p = 0") auto

lemma prev_after_next:
  fixes p L :: nat
  assumes "p < L"
  shows "(if (p + 1) mod L = 0 then L - 1 else (p + 1) mod L - 1) = p"
proof (cases "p + 1 = L")
  case True
  then show ?thesis by auto
next
  case False
  with assms have "(p + 1) mod L = p + 1" by simp
  then show ?thesis by simp
qed

text \<open>
  Claim C10. On both sliders, for every index \<open>p\<close> within the list, the previous button
  yields \<open>(p + length - 1) mod length\<close> (so previous of \<open>0\<close> is \<open>length - 1\<close>), and previous
  followed by next, or next followed by previous, gives \<open>p\<close> back.
\<close>

theorem slider_prev_next_inverse:
  "(p < length HERO_SHOTS \<longrightarrow>
      setHeroIndex_prev p = (p + length HERO_SHOTS - 1) mod length HERO_SHOTS
      \<and> setHeroIndex_prev 0 = length HERO_SHOTS - 1
      \<and> setHeroIndex_next (setHeroIndex_prev p) = p
      \<and> setHeroIndex_prev (setHeroIndex_next p) = p)
   \<and> (q < length APP_SHOTS \<longrightarrow>
      setShotIndex_prev q = (q + length APP_SHOTS - 1) mod length APP_SHOTS
      \<and> setShotIndex_prev 0 = length APP_SHOTS - 1
      \<and> setShotIndex_next (setShotIndex_prev q) = q
      \<and> setShotIndex_prev (setShotIndex_next q) = q)"
proof (intro conjI impI)
  assume p: "p < length HERO_SHOTS"
  show "setHeroIndex_prev p = (p + length HERO_SHOTS - 1) mod length HERO_SHOTS"
    unfolding setHeroIndex_prev_def using prev_branch_is_mod [OF p] .
  show "setHeroIndex_prev 0 = length HERO_SHOTS - 1"
    by (simp add: setHeroIndex_prev_def)
  show "setHeroIndex_next (setHeroIndex_prev p) = p"
    unfolding setHeroIndex_prev_def setHeroIndex_next_def using next_after_prev [OF p] .
  show "setHeroIndex_prev (setHeroIndex_next p) = p"
    unfolding setHeroIndex_prev_def setHeroIndex_next_def using prev_after_next [OF p] .
next
  assume q: "q < length APP_SHOTS"
  show "setShotIndex_prev q = (q + length APP_SHOTS - 1) mod length APP_SHOTS"
    unfolding setShotIndex_prev_def using prev_branch_is_mod [OF q] .
  show "setShotIndex_prev 0 = length APP_SHOTS - 1"
    by (simp add: setShotIndex_prev_def)
  show "setShotIndex_next (setShotIndex_prev q) = q"
    unfolding setShotIndex_prev_def setShotIndex_next_def using next_after_prev [OF q] .
  show "setShotIndex_prev (setShotIndex_next q) = q"
    unfolding setShotIndex_prev_def setShotIndex_next_def using prev_after_next [OF q] .
qed

theorem slider_prev_next_inverse_witness:
  "(0::nat) < length HERO_SHOTS \<and> setHeroIndex_prev 0 = 1
   \<and> setHeroIndex_next (setHeroIndex_prev 0) = 0
   \<and> (2::nat) < length APP_SHOTS \<and> setShotIndex_prev 2 = 1
   \<and> setShotIndex_prev (setShotIndex_next 2) = 2"
  using slider_prev_next_inverse [of 0 2]
  by (simp add: length_HERO_SHOTS length_APP_SHOTS setHeroIndex_prev_def setShotIndex_prev_def)

subsection \<open>Rotation controllers\<close>

lemma rot_run_snoc: "rot_run upd s (evs @ [e]) = rot_step upd (rot_run upd s evs) e"
  by (simp add: rot_run_def)

lemma replicate_Tick_snoc: "replicate (Suc N) Tick = replicate N Tick @ [Tick]"
  by (simp add: replicate_append_same)

lemma ticks_keep_running:
  "\<not> cleared (timer s) \<Longrightarrow> \<not> cleared (timer (rot_run upd s (replicate N Tick)))"
proof (induction N)
  case 0
  then show ?case by (simp add: rot_run_def)
next
  case (Suc N)
  then show ?case
    by (simp only: replicate_Tick_snoc rot_run_snoc) (simp add: on_tick_def interval_fired_def)
qed

lemma ticks_mod:
  fixes L :: nat
  assumes run: "\<not> cleared (timer s)" and start: "current s = 0"
  shows "current (rot_run (\<lambda>prev. (prev + 1) mod L) s (replicate N Tick)) = N mod L"
proof (induction N)
  case 0
  then show ?case by (simp add: rot_run_def start)
next
  case (Suc N)
  let ?r = "rot_run (\<lambda>prev. (prev + 1) mod L) s (replicate N Tick)"
  have "\<not> cleared (timer ?r)" using run by (rule ticks_keep_running)
  then have "current (on_tick (\<lambda>prev. (prev + 1) mod L) ?r) = (current ?r + 1) mod L"
    by (simp add: on_tick_def)
  also have "\<dots> = (N mod L + 1) mod L" using Suc.IH by simp
  also have "\<dots> = Suc N mod L" by (simp add: mod_Suc_eq)
  finally show ?case by (simp only: replicate_Tick_snoc rot_run_snoc rot_step.simps)
qed

lemma length_heroPhrases: "length heroPhrases = 4"
  by (simp add: heroPhrases_def)

lemma length_quotes: "length quotes = 3"
  by (simp add: quotes_def)

lemma indexOf_tabs:
  "indexOf tabs Recepcion = 0" "indexOf tabs Consultorio = 1" "indexOf tabs Direccion = 2"
  by (simp_all add: indexOf_def tabs_def)

lemma indexOf_tabs_range: "0 \<le> indexOf tabs t \<and> indexOf tabs t < int (length tabs)"
  by (cases t) (simp_all add: indexOf_tabs, simp_all add: tabs_def)

lemma setDemoTab_tick_cases:
  "setDemoTab_tick Recepcion = Consultorio"
  "setDemoTab_tick Consultorio = Direccion"
  "setDemoTab_tick Direccion = Recepcion"
  by (simp_all add: setDemoTab_tick_def indexOf_tabs Let_def, simp_all add: tabs_def)

lemma indexOf_setDemoTab_tick:
  "indexOf tabs (setDemoTab_tick t) = (indexOf tabs t + 1) mod int (length tabs)"
  by (cases t) (simp_all add: setDemoTab_tick_cases indexOf_tabs, simp_all add: tabs_def)

lemma demoTab_ticks_mod:
  assumes run: "\<not> cleared (timer s)" and start: "current s = Recepcion"
  shows "indexOf tabs (current (rot_run setDemoTab_tick s (replicate N Tick)))
           = int (N mod length tabs)"
proof (induction N)
  case 0
  then show ?case by (simp add: rot_run_def start indexOf_tabs)
next
  case (Suc N)
  let ?r = "rot_run setDemoTab_tick s (replicate N Tick)"
  have "\<not> cleared (timer ?r)" using run by (rule ticks_keep_running)
  then have "current (on_tick setDemoTab_tick ?r) = setDemoTab_tick (current ?r)"
    by (simp add: on_tick_def)
  then have "indexOf tabs (current (on_tick setDemoTab_tick ?r))
               = (int (N mod length tabs) + 1) mod int (length tabs)"
    using Suc.IH by (simp add: indexOf_setDemoTab_tick)
  also have "\<dots> = int ((N mod length tabs + 1) mod length tabs)"
    by (simp add: zmod_int add.commute)
  also have "\<dots> = int (Suc N mod length tabs)" by (simp add: mod_Suc_eq)
  finally show ?case by (simp only: replicate_Tick_snoc rot_run_snoc rot_step.simps)
qed

lemma unmount_stops_rotation: "on_tick upd (on_unmount s) = on_unmount s"
  by (simp add: on_tick_def on_unmount_def clearInterval_def)

lemma sliders_start_in_range:
  "heroIndex_init < length HERO_SHOTS" "shotIndex_init < length APP_SHOTS"
  by (simp_all add: heroIndex_init_def shotIndex_init_def length_HERO_SHOTS length_APP_SHOTS)

text \<open>
  Claim C2. Each of the three timed controllers starts at index \<open>0\<close>; after \<open>N\<close> ticks its
  index is \<open>N mod L\<close>, \<open>L\<close> the length of its list; and the index stays within
  \<open>0 .. L - 1\<close>, for the demo tabs under every sequence of ticks and tab clicks (the
  phrase cycle and the quote carousel have no handler other than the tick).
\<close>

theorem rotation_index_is_ticks_mod_length:
  "current heroText_mount = 0
   \<and> current (heroText_after N) = N mod length heroPhrases
   \<and> current (heroText_after N) < length heroPhrases
   \<and> current QuoteCarousel_mount = 0
   \<and> current (QuoteCarousel_after N) = N mod length quotes
   \<and> current (QuoteCarousel_after N) < length quotes
   \<and> indexOf tabs (current demoTab_mount) = 0
   \<and> indexOf tabs (current (demoTab_run (replicate N Tick))) = int (N mod length tabs)
   \<and> 0 \<le> indexOf tabs (current (demoTab_run evs))
   \<and> indexOf tabs (current (demoTab_run evs)) < int (length tabs)"
proof -
  have hero: "current (heroText_after N) = N mod length heroPhrases"
    unfolding heroText_after_def setHeroTextIndex_tick_def
    by (rule ticks_mod) (simp_all add: heroText_mount_def setInterval_def)
  have quote: "current (QuoteCarousel_after N) = N mod length quotes"
    unfolding QuoteCarousel_after_def setIndex_tick_def
    by (rule ticks_mod) (simp_all add: QuoteCarousel_mount_def setInterval_def)
  have demo: "indexOf tabs (current (demoTab_run (replicate N Tick))) = int (N mod length tabs)"
    unfolding demoTab_run_def
    by (rule demoTab_ticks_mod) (simp_all add: demoTab_mount_def setInterval_def)
  have hero_lt: "current (heroText_after N) < length heroPhrases"
    by (simp add: hero length_heroPhrases)
  have quote_lt: "current (QuoteCarousel_after N) < length quotes"
    by (simp add: quote length_quotes)
  have starts: "current heroText_mount = 0" "current QuoteCarousel_mount = 0"
    "indexOf tabs (current demoTab_mount) = 0"
    by (simp_all add: heroText_mount_def QuoteCarousel_mount_def demoTab_mount_def indexOf_tabs)
  show ?thesis
    using hero quote demo hero_lt quote_lt starts indexOf_tabs_range by blast
qed

text \<open>
  Claim C8. A tab click or a slider dot click stores the selected value and nothing else:
  the demo interval keeps its period, its next due time and its running state, and the
  first tick after the click moves to the successor of the clicked tab, modulo the number
  of tabs. The sliders have no interval; their dot buttons store the clicked index.
\<close>

theorem selection_sets_index_and_keeps_timer:
  assumes "\<not> cleared (timer s)"
  shows "current (on_select t s) = t
   \<and> timer (on_select t s) = timer s
   \<and> indexOf tabs (current (on_tick setDemoTab_tick (on_select t s)))
        = (indexOf tabs t + 1) mod int (length tabs)
   \<and> current (on_tick setDemoTab_tick (on_select t s))
        = tabs ! nat ((indexOf tabs t + 1) mod int (length tabs))
   \<and> timer (on_tick setDemoTab_tick (on_select t s)) = timer (on_tick setDemoTab_tick s)
   \<and> period (timer (on_tick setDemoTab_tick (on_select t s))) = period (timer s)
   \<and> setHeroIndex_select i p = i
   \<and> setShotIndex_select j q = j"
proof -
  have sel: "current (on_select t s) = t" "timer (on_select t s) = timer s"
    by (simp_all add: on_select_def)
  have cur: "current (on_tick setDemoTab_tick (on_select t s)) = setDemoTab_tick t"
    using assms by (simp add: on_tick_def on_select_def)
  have tim: "timer (on_tick setDemoTab_tick (on_select t s)) = timer (on_tick setDemoTab_tick s)"
    using assms by (simp add: on_tick_def on_select_def)
  have per: "period (timer (on_tick setDemoTab_tick (on_select t s))) = period (timer s)"
    using assms by (simp add: on_tick_def on_select_def interval_fired_def)
  have idx: "indexOf tabs (current (on_tick setDemoTab_tick (on_select t s)))
        = (indexOf tabs t + 1) mod int (length tabs)"
    by (simp only: cur indexOf_setDemoTab_tick)
  have nth: "current (on_tick setDemoTab_tick (on_select t s))
        = tabs ! nat ((indexOf tabs t + 1) mod int (length tabs))"
    by (simp only: cur) (simp add: setDemoTab_tick_def Let_def)
  show ?thesis
    using sel cur tim per idx nth by (simp add: setHeroIndex_select_def setShotIndex_select_def)
qed

theorem selection_sets_index_and_keeps_timer_witness:
  "\<not> cleared (timer demoTab_mount)
   \<and> current (on_select Direccion demoTab_mount) = Direccion
   \<and> timer (on_select Direccion demoTab_mount) = timer demoTab_mount
   \<and> current (on_tick setDemoTab_tick (on_select Direccion demoTab_mount)) = Recepcion
   \<and> period (timer (on_tick setDemoTab_tick (on_select Direccion demoTab_mount))) = 4000"
proof -
  have run: "\<not> cleared (timer demoTab_mount)"
    by (simp add: demoTab_mount_def setInterval_def)
  have "tabs ! nat ((indexOf tabs Direccion + 1) mod int (length tabs)) = Recepcion"
    by (simp add: indexOf_tabs) (simp add: tabs_def)
  moreover have "period (timer demoTab_mount) = 4000"
    by (simp add: demoTab_mount_def setInterval_def)
  moreover note selection_sets_index_and_keeps_timer [OF run, of Direccion 0 0 0 0]
  ultimately show ?thesis
    using run by metis
qed

subsection \<open>Lead-capture form\<close>


lemma fromEntries_foldl:
  "foldl (\<lambda>m (k, v). m(k \<mapsto> v)) m es = m ++ map_of (rev es)"
proof (induction es arbitrary: m)
  case Nil
  then show ?case by simp
next
  case (Cons e es)
  obtain k v where e: "e = (k, v)" by (cases e)
  have "foldl (\<lambda>m (k, v). m(k \<mapsto> v)) m (e # es)
          = foldl (\<lambda>m (k, v). m(k \<mapsto> v)) (m(k \<mapsto> v)) es"
    by (simp add: e)
  also have "\<dots> = m(k \<mapsto> v) ++ map_of (rev es)"
    by (rule Cons.IH)
  also have "\<dots> = m ++ map_of (rev (e # es))"
    by (simp add: e map_of_append)
  finally show ?case .
qed

lemma fromEntries_map_of: "fromEntries es = map_of (rev es)"
  by (simp add: fromEntries_def fromEntries_foldl)

lemma set_FormData:
  "set (FormData cs) = {(n, control_value c) | n c. c \<in> set cs \<and> control_name c = Some n}"
  by (auto simp: FormData_def split: option.splits)

lemma dom_fromEntries_FormData:
  "dom (fromEntries (FormData cs)) = {n. \<exists>c \<in> set cs. control_name c = Some n}"
  by (auto simp: fromEntries_map_of dom_map_of_conv_image_fst set_FormData image_iff)

lemma fromEntries_FormData_value:
  assumes "fromEntries (FormData cs) n = Some v"
  shows "\<exists>c \<in> set cs. control_name c = Some n \<and> control_value c = v"
proof -
  from assms have "(n, v) \<in> set (rev (FormData cs))"
    unfolding fromEntries_map_of by (rule map_of_SomeD)
  then show ?thesis by (auto simp: set_FormData)
qed

lemma reverts_mounted:
  "page_mounted (foldl (\<lambda>s' x. setFormSent False s') s xs) = page_mounted s"
  by (induction xs arbitrary: s) (simp_all add: setFormSent_def)

lemma reverts_formSent:
  "page_mounted s \<Longrightarrow>
   formSent (foldl (\<lambda>s' x. setFormSent False s') s xs) = (if xs = [] then formSent s else False)"
proof (induction xs arbitrary: s)
  case Nil
  then show ?case by simp
next
  case (Cons x xs)
  have m: "page_mounted (setFormSent False s)" using Cons.prems by (simp add: setFormSent_def)
  have f: "\<not> formSent (setFormSent False s)" using Cons.prems by (simp add: setFormSent_def)
  show ?case using Cons.IH [OF m] f by simp
qed

lemma elapse_formSent:
  assumes "page_mounted s"
  shows "formSent (elapse ms s)
           = (if \<exists>x \<in> set (timeouts s). fires_at x \<le> clock s + ms then False else formSent s)"
proof -
  have "page_mounted (s\<lparr>clock := clock s + ms,
      timeouts := filter (\<lambda>x. \<not> fires_at x \<le> clock s + ms) (timeouts s)\<rparr>)"
    using assms by simp
  from reverts_formSent [OF this, of "filter (\<lambda>x. fires_at x \<le> clock s + ms) (timeouts s)"]
  show ?thesis
    by (simp add: elapse_def Let_def filter_empty_conv)
qed

lemma onSubmit_state:
  assumes "page_mounted s"
  shows "state_after (onSubmit e s) =
     s\<lparr>formSent := True,
       timeouts := timeouts s @ [\<lparr>handle = next_handle s, fires_at = clock s + 12000\<rparr>],
       next_handle := next_handle s + 1,
       formTimer := Some (next_handle s)\<rparr>"
  using assms by (simp add: onSubmit_def setTimeout_def setFormSent_def Let_def)

text \<open>
  Claim C6. On every submission (whatever the field values) the handler prevents the
  default navigation, collects exactly the named controls into the record, each under its
  name with a value taken from a control of that name, shows the confirmation view, and
  registers exactly one timeout, due 12000 ms later, whose handle it stores in the ref.
  With no further interaction the view is editable again once 12000 ms have passed; when
  no older timeout is pending it stays in the confirmation view until then.
\<close>

theorem submit_sends_and_schedules_one_revert:
  assumes mounted: "page_mounted s"
  shows "defaultPrevented (event_after (onSubmit e s))
   \<and> dom (data (onSubmit e s)) = {n. \<exists>c \<in> set (currentTarget e). control_name c = Some n}
   \<and> (\<forall>n v. data (onSubmit e s) n = Some v \<longrightarrow>
         (\<exists>c \<in> set (currentTarget e). control_name c = Some n \<and> control_value c = v))
   \<and> formSent (state_after (onSubmit e s))
   \<and> timeouts (state_after (onSubmit e s))
        = timeouts s @ [\<lparr>handle = next_handle s, fires_at = clock s + 12000\<rparr>]
   \<and> formTimer (state_after (onSubmit e s)) = Some (next_handle s)
   \<and> \<not> formSent (elapse 12000 (state_after (onSubmit e s)))
   \<and> (timeouts s = [] \<longrightarrow> (\<forall>ms < 12000. formSent (elapse ms (state_after (onSubmit e s)))))"
proof -
  let ?r = "onSubmit e s"
  let ?s = "state_after ?r"
  have st: "?s = s\<lparr>formSent := True,
       timeouts := timeouts s @ [\<lparr>handle = next_handle s, fires_at = clock s + 12000\<rparr>],
       next_handle := next_handle s + 1,
       formTimer := Some (next_handle s)\<rparr>"
    using mounted by (rule onSubmit_state)
  have ev: "defaultPrevented (event_after ?r)"
    by (simp add: onSubmit_def preventDefault_def Let_def split: prod.splits)
  have d: "data ?r = fromEntries (FormData (currentTarget e))"
    by (simp add: onSubmit_def Let_def split: prod.splits)
  have dom_d: "dom (data ?r) = {n. \<exists>c \<in> set (currentTarget e). control_name c = Some n}"
    by (simp only: d dom_fromEntries_FormData)
  have val_d: "\<forall>n v. data ?r n = Some v \<longrightarrow>
         (\<exists>c \<in> set (currentTarget e). control_name c = Some n \<and> control_value c = v)"
    by (simp only: d) (blast dest: fromEntries_FormData_value)
  have sent: "formSent ?s" by (simp add: st)
  have tab: "timeouts ?s = timeouts s @ [\<lparr>handle = next_handle s, fires_at = clock s + 12000\<rparr>]"
    by (simp add: st)
  have ref: "formTimer ?s = Some (next_handle s)" by (simp add: st)
  have m': "page_mounted ?s" using mounted by (simp add: st)
  have clk: "clock ?s = clock s" by (simp add: st)
  have reverted: "\<not> formSent (elapse 12000 ?s)"
    by (simp add: elapse_formSent [OF m'] tab clk)
  have stays: "timeouts s = [] \<longrightarrow> (\<forall>ms < 12000. formSent (elapse ms ?s))"
    by (simp add: elapse_formSent [OF m'] tab clk sent)
  show ?thesis
    using ev dom_d val_d sent tab ref reverted stays by blast
qed


theorem submit_sends_and_schedules_one_revert_witness:
  "(let e = \<lparr>currentTarget = lead_form
              [''CAPS San Martin'', ''Buenos Aires'', ''San Justo'', ''Av. Mitre 100'', ''1200'',
               ''900'', ''Ana Perez, directora'', ''+54 11 1234-5678'',
               ''contacto@centro.gob.ar'', ''''],
            defaultPrevented = False\<rparr>;
        r = onSubmit e form_init
    in page_mounted form_init \<and> timeouts form_init = [] \<and> (11999::nat) < 12000
       \<and> defaultPrevented (event_after r)
       \<and> dom (data r) = set lead_form_names
       \<and> data r ''centro'' = Some ''CAPS San Martin''
       \<and> formSent (state_after r)
       \<and> timeouts (state_after r) = [\<lparr>handle = 1, fires_at = 12000\<rparr>]
       \<and> formTimer (state_after r) = Some 1
       \<and> formSent (elapse 11999 (state_after r))
       \<and> \<not> formSent (elapse 12000 (state_after r)))"
proof -
  let ?e = "\<lparr>currentTarget = lead_form
              [''CAPS San Martin'', ''Buenos Aires'', ''San Justo'', ''Av. Mitre 100'', ''1200'',
               ''900'', ''Ana Perez, directora'', ''+54 11 1234-5678'',
               ''contacto@centro.gob.ar'', ''''],
            defaultPrevented = False\<rparr>"
  have m: "page_mounted form_init" and t: "timeouts form_init = []"
    and c: "clock form_init = 0" and h: "next_handle form_init = 1"
    by (simp_all add: form_init_def)
  note inst = submit_sends_and_schedules_one_revert [OF m, of ?e]
  have names: "{n. \<exists>c \<in> set (currentTarget ?e). control_name c = Some n} = set lead_form_names"
    by (auto simp: lead_form_def lead_form_names_def)
  have centro: "data (onSubmit ?e form_init) ''centro'' = Some ''CAPS San Martin''"
    by (simp add: onSubmit_def Let_def FormData_def fromEntries_def lead_form_def
        lead_form_names_def split: prod.splits)
  from inst have d: "dom (data (onSubmit ?e form_init)) = set lead_form_names"
    by (simp only: names)
  from inst t have "formSent (elapse 11999 (state_after (onSubmit ?e form_init)))"
    by simp
  moreover from inst have "\<not> formSent (elapse 12000 (state_after (onSubmit ?e form_init)))"
    by blast
  moreover from inst c h
  have "timeouts (state_after (onSubmit ?e form_init)) = [\<lparr>handle = 1, fires_at = 12000\<rparr>]"
    by (simp add: t)
  moreover from inst h have "formTimer (state_after (onSubmit ?e form_init)) = Some 1"
    by simp
  moreover from inst have "defaultPrevented (event_after (onSubmit ?e form_init))"
    and "formSent (state_after (onSubmit ?e form_init))"
    by blast+
  ultimately show ?thesis
    using m t d centro by (simp add: Let_def)
qed

text \<open>
  Claim C1. The claim asks for at most one pending revert at any time. The submit handler
  registers a new timeout without clearing the one whose handle is in the ref, so after
  submit, "Enviar otra", submit, two reverts are pending; the older one then ends the second
  confirmation early (here after 1000 ms instead of 12000 ms), and the cleanup on unmount
  clears only the newer one.
\<close>

theorem resubmission_leaves_two_pending_reverts:
  "(let cs = lead_form
              [''CAPS San Martin'', ''Buenos Aires'', ''San Justo'', ''Av. Mitre 100'', ''1200'',
               ''900'', ''Ana Perez, directora'', ''+54 11 1234-5678'',
               ''contacto@centro.gob.ar'', '''']
    in timeouts (form_run form_init [Submit cs, EnviarOtra, Submit cs])
         = [\<lparr>handle = 1, fires_at = 12000\<rparr>, \<lparr>handle = 2, fires_at = 12000\<rparr>]
       \<and> formSent (form_run form_init [Submit cs, Elapse 11000, EnviarOtra, Submit cs])
       \<and> \<not> formSent (form_run form_init
             [Submit cs, Elapse 11000, EnviarOtra, Submit cs, Elapse 1000])
       \<and> timeouts (form_run form_init [Submit cs, EnviarOtra, Submit cs, Unmount])
         = [\<lparr>handle = 1, fires_at = 12000\<rparr>])"
  by (simp add: form_run_def form_init_def onSubmit_def setTimeout_def setFormSent_def
      onClick_enviar_otra_def elapse_def cleanup_def clearTimeout_def Let_def)

subsection \<open>Image tile\<close>

lemma toneMap_lookup:
  "map_of toneMap (tone_key Blue) = Some ''from-slate-900/10 via-blue-900/10 to-cyan-900/10''"
  "map_of toneMap (tone_key Violet) = Some ''from-slate-900/10 via-purple-900/10 to-fuchsia-900/10''"
  "map_of toneMap (tone_key Amber) = Some ''from-slate-900/10 via-orange-900/10 to-amber-900/10''"
  by (simp_all add: toneMap_def)

lemma PhotoTile_no_image:
  assumes "\<not> (Boolean_string (imageSrc props) \<and> \<not> imgError)"
  shows "PhotoTile props imgError =
      PlaceholderRegion
        (''absolute inset-0 bg-gradient-to-br '' @
          (case (case tone_prop props of None \<Rightarrow> Blue | Some t \<Rightarrow> t) of
             Blue \<Rightarrow> ''from-slate-900/10 via-blue-900/10 to-cyan-900/10''
           | Violet \<Rightarrow> ''from-slate-900/10 via-purple-900/10 to-fuchsia-900/10''
           | Amber \<Rightarrow> ''from-slate-900/10 via-orange-900/10 to-amber-900/10''))
        texture"
proof -
  let ?t = "case tone_prop props of None \<Rightarrow> Blue | Some t \<Rightarrow> t"
  have "string_of_lookup (map_of toneMap (tone_key ?t)) =
          (case ?t of
             Blue \<Rightarrow> ''from-slate-900/10 via-blue-900/10 to-cyan-900/10''
           | Violet \<Rightarrow> ''from-slate-900/10 via-purple-900/10 to-fuchsia-900/10''
           | Amber \<Rightarrow> ''from-slate-900/10 via-orange-900/10 to-amber-900/10'')"
    by (cases ?t) (simp_all only: toneMap_lookup string_of_lookup_def option.case tone.case)
  then show ?thesis
    using assms unfolding PhotoTile_def Let_def by (simp only: if_False)
qed

lemma PhotoTile_shows_loaded_image:
  assumes "imageSrc props = Some src" and "src \<noteq> []"
  shows "PhotoTile props imgError_init = ImageRegion src (title props)"
  using assms
  by (simp add: PhotoTile_def Boolean_string_def string_of_lookup_def imgError_init_def)

text \<open>
  Claim C7. For each of the three tones (blue when none is given): when the image
  reference is absent, or the error flag is set, the tile renders the placeholder, whose
  gradient layer carries the class registered for that tone and whose texture layer is
  the fixed procedural texture; and a failed load sets the error flag, after which the
  tile renders that placeholder whatever the image reference is.
\<close>

theorem PhotoTile_placeholder_when_image_missing_or_failed:
  "(imageSrc props = None \<or> imgError \<longrightarrow>
      PhotoTile props imgError =
        PlaceholderRegion
          (''absolute inset-0 bg-gradient-to-br '' @
            (case (case tone_prop props of None \<Rightarrow> Blue | Some t \<Rightarrow> t) of
               Blue \<Rightarrow> ''from-slate-900/10 via-blue-900/10 to-cyan-900/10''
             | Violet \<Rightarrow> ''from-slate-900/10 via-purple-900/10 to-fuchsia-900/10''
             | Amber \<Rightarrow> ''from-slate-900/10 via-orange-900/10 to-amber-900/10''))
          texture)
   \<and> onError imgError
   \<and> PhotoTile props (onError imgError) =
        PlaceholderRegion
          (''absolute inset-0 bg-gradient-to-br '' @
            (case (case tone_prop props of None \<Rightarrow> Blue | Some t \<Rightarrow> t) of
               Blue \<Rightarrow> ''from-slate-900/10 via-blue-900/10 to-cyan-900/10''
             | Violet \<Rightarrow> ''from-slate-900/10 via-purple-900/10 to-fuchsia-900/10''
             | Amber \<Rightarrow> ''from-slate-900/10 via-orange-900/10 to-amber-900/10''))
          texture"
proof (intro conjI impI)
  assume "imageSrc props = None \<or> imgError"
  then have "\<not> (Boolean_string (imageSrc props) \<and> \<not> imgError)"
    by (auto simp: Boolean_string_def)
  then show "PhotoTile props imgError =
        PlaceholderRegion
          (''absolute inset-0 bg-gradient-to-br '' @
            (case (case tone_prop props of None \<Rightarrow> Blue | Some t \<Rightarrow> t) of
               Blue \<Rightarrow> ''from-slate-900/10 via-blue-900/10 to-cyan-900/10''
             | Violet \<Rightarrow> ''from-slate-900/10 via-purple-900/10 to-fuchsia-900/10''
             | Amber \<Rightarrow> ''from-slate-900/10 via-orange-900/10 to-amber-900/10''))
          texture"
    by (rule PhotoTile_no_image)
next
  show "onError imgError" by (simp add: onError_def)
next
  have "\<not> (Boolean_string (imageSrc props) \<and> \<not> onError imgError)"
    by (simp add: onError_def)
  then show "PhotoTile props (onError imgError) =
        PlaceholderRegion
          (''absolute inset-0 bg-gradient-to-br '' @
            (case (case tone_prop props of None \<Rightarrow> Blue | Some t \<Rightarrow> t) of
               Blue \<Rightarrow> ''from-slate-900/10 via-blue-900/10 to-cyan-900/10''
             | Violet \<Rightarrow> ''from-slate-900/10 via-purple-900/10 to-fuchsia-900/10''
             | Amber \<Rightarrow> ''from-slate-900/10 via-orange-900/10 to-amber-900/10''))
          texture"
    by (rule PhotoTile_no_image)
qed

theorem PhotoTile_placeholder_when_image_missing_or_failed_witness:
  "imageSrc \<lparr>title = ''Historia'', desc = ''Cada consulta'', tone_prop = Some Amber,
             imageSrc = None\<rparr> = None
   \<and> PhotoTile \<lparr>title = ''Historia'', desc = ''Cada consulta'', tone_prop = Some Amber,
               imageSrc = None\<rparr> False
      = PlaceholderRegion
          ''absolute inset-0 bg-gradient-to-br from-slate-900/10 via-orange-900/10 to-amber-900/10''
          texture"
  using PhotoTile_placeholder_when_image_missing_or_failed
    [of "\<lparr>title = ''Historia'', desc = ''Cada consulta'', tone_prop = Some Amber,
          imageSrc = None\<rparr>" False]
  by simp

subsection \<open>Theme toggle\<close>

lemma styled_inactive_buttons:
  "styled_inactive \<lparr>aria_label = a, sets_theme = n,
      className = cn [Some ''rounded-full p-2 transition-all'', Some inactive_class]\<rparr>"
  "\<not> styled_inactive \<lparr>aria_label = a, sets_theme = n,
      className = cn [Some ''rounded-full p-2 transition-all'',
        Some ''bg-white text-black shadow-md scale-105'']\<rparr>"
  "\<not> styled_inactive \<lparr>aria_label = a, sets_theme = n,
      className = cn [Some ''rounded-full p-2 transition-all'',
        Some ''bg-black text-white shadow-md scale-105'']\<rparr>"
  "\<not> styled_inactive \<lparr>aria_label = a, sets_theme = n,
      className = cn [Some ''rounded-full p-2 transition-all'',
        Some ''bg-zinc-200 dark:bg-zinc-700 text-black dark:text-white shadow-md scale-105'']\<rparr>"
  by (simp_all add: styled_inactive_def cn_def inactive_class_def List.map_filter_simps)

text \<open>
  Claim C9. The toggle starts unmounted and returns \<open>null\<close> in every state in which the
  mounted flag is false; it renders something exactly when the flag is true. After the
  mount effect it renders the three buttons light, dark, system, and a button carries
  the active styling exactly when the provider's theme is the one it sets, so at most
  one button is styled active.
\<close>

theorem ThemeToggle_null_until_mounted:
  "\<not> mounted_init
   \<and> ThemeToggle theme mounted_init = None
   \<and> (\<not> mounted \<longrightarrow> ThemeToggle theme mounted = None)
   \<and> (ThemeToggle theme mounted \<noteq> None \<longleftrightarrow> mounted)
   \<and> (\<exists>bs. ThemeToggle theme (mount_effect mounted) = Some bs
         \<and> map sets_theme bs = [''light'', ''dark'', ''system'']
         \<and> (\<forall>b \<in> set bs. \<not> styled_inactive b \<longleftrightarrow> theme = Some (sets_theme b))
         \<and> length (filter (\<lambda>b. \<not> styled_inactive b) bs) \<le> 1)"
proof -
  have a: "\<not> mounted_init" by (simp add: mounted_init_def)
  have b: "ThemeToggle theme mounted_init = None" by (simp add: ThemeToggle_def mounted_init_def)
  have c: "\<not> mounted \<longrightarrow> ThemeToggle theme mounted = None" by (simp add: ThemeToggle_def)
  have d: "ThemeToggle theme mounted \<noteq> None \<longleftrightarrow> mounted" by (simp add: ThemeToggle_def)
  have e: "\<exists>bs. ThemeToggle theme (mount_effect mounted) = Some bs
         \<and> map sets_theme bs = [''light'', ''dark'', ''system'']
         \<and> (\<forall>b \<in> set bs. \<not> styled_inactive b \<longleftrightarrow> theme = Some (sets_theme b))
         \<and> length (filter (\<lambda>b. \<not> styled_inactive b) bs) \<le> 1"
    by (simp add: ThemeToggle_def mount_effect_def styled_inactive_buttons)
  show ?thesis using a b c d e by blast
qed

theorem ThemeToggle_null_until_mounted_witness:
  "\<not> False \<and> ThemeToggle (Some ''dark'') False = None
   \<and> map styled_inactive (the (ThemeToggle (Some ''dark'') (mount_effect False)))
       = [True, False, True]"
  using ThemeToggle_null_until_mounted [of "Some ''dark''" False]
  by (auto simp: mount_effect_def)

subsection \<open>Gauge\<close>

lemma circumference_pos: "0 < circumference"
  by (simp add: circumference_def radius_def)

text \<open>
  Claim C5. The dash offset of the ring in view is \<open>circumference * (1 - value / 100)\<close>, so
  the filled arc is the positive constant \<open>circumference / 100\<close> times the value: at \<open>0\<close> the
  offset is the full circumference (empty ring), at \<open>100\<close> it is \<open>0\<close> (full ring).
\<close>

theorem CircularMetric_offset_proportional:
  "whileInView_strokeDashoffset (CircularMetric v) = circumference * (1 - v / 100)
   \<and> filled_arc (CircularMetric v) = circumference * (v / 100)
   \<and> initial_strokeDashoffset (CircularMetric v) = circumference
   \<and> whileInView_strokeDashoffset (CircularMetric 0) = circumference
   \<and> whileInView_strokeDashoffset (CircularMetric 100) = 0
   \<and> filled_arc (CircularMetric 0) = 0
   \<and> filled_arc (CircularMetric 100) = circumference
   \<and> 0 < circumference"
  by (simp add: CircularMetric_def offset_def filled_arc_def circumference_pos algebra_simps)


subsection \<open>Counter: numeric target\<close>

lemma replace_all_empty: "replace_all cls [] s = filter (\<lambda>c. \<not> cls c) s"
  by (induction s) (simp_all add: replace_all_def)

lemma is_digit_iff: "is_digit c \<longleftrightarrow> c \<in> set ''0123456789''"
proof -
  have "is_digit c \<longleftrightarrow> (of_char c :: nat) \<in> {48, 49, 50, 51, 52, 53, 54, 55, 56, 57}"
    unfolding is_digit_def by (simp, arith)
  also have "\<dots> \<longleftrightarrow> c \<in> set ''0123456789''"
    by (cases c) auto
  finally show ?thesis .
qed

lemma numeric_char_iff: "\<not> non_numeric c \<longleftrightarrow> c \<in> set ''0123456789.''"
  using is_digit_iff [of c] by (auto simp: non_numeric_def)

lemma filter_numeric_sandwich:
  assumes "\<forall>c \<in> set ds. is_digit c" and "\<forall>c \<in> set pre \<union> set post. non_numeric c"
  shows "filter (\<lambda>c. \<not> non_numeric c) (pre @ ds @ post) = ds"
proof -
  have "filter (\<lambda>c. \<not> non_numeric c) pre = []" using assms(2) by (simp add: filter_empty_conv)
  moreover have "filter (\<lambda>c. \<not> non_numeric c) post = []"
    using assms(2) by (simp add: filter_empty_conv)
  moreover have "filter (\<lambda>c. \<not> non_numeric c) ds = ds"
    using assms(1) by (simp add: filter_id_conv non_numeric_def)
  ultimately show ?thesis by simp
qed

text \<open>
  Claim C4. For a string the animation target is what \<open>parseFloat\<close> reads from the string
  with every character other than a digit or a dot removed; for a number it is the number
  itself. In particular, for a run of digits with characters around it that are neither
  digits nor dots, such as \<open>92%\<close>, the target is what \<open>parseFloat\<close> reads from the digits
  alone; so wherever \<open>parseFloat\<close> reads a run of at most fifteen digits as the integer it
  denotes (every such integer is a double), the target is that integer.
\<close>

theorem numericValue_parses_digits_and_dots:
  "numericValue rt (Text s) = parseFloat rt (filter (\<lambda>c. c \<in> set ''0123456789.'') s)
   \<and> numericValue rt (Number n) = n
   \<and> ((\<forall>c \<in> set ds. is_digit c) \<and> (\<forall>c \<in> set pre \<union> set post. non_numeric c)
        \<longrightarrow> numericValue rt (Text (pre @ ds @ post)) = parseFloat rt ds)
   \<and> (ds \<noteq> [] \<and> length ds \<le> 15
        \<and> (\<forall>c \<in> set ds. is_digit c) \<and> (\<forall>c \<in> set pre \<union> set post. non_numeric c)
        \<and> parseFloat rt ds = Num (of_nat (digits_value ds))
        \<longrightarrow> numericValue rt (Text (pre @ ds @ post)) = Num (of_nat (digits_value ds)))"
proof -
  have "filter (\<lambda>c. \<not> non_numeric c) s = filter (\<lambda>c. c \<in> set ''0123456789.'') s"
    by (simp only: numeric_char_iff)
  then have a: "numericValue rt (Text s)
      = parseFloat rt (filter (\<lambda>c. c \<in> set ''0123456789.'') s)"
    by (simp add: numericValue_def replace_all_empty)
  have b: "numericValue rt (Number n) = n" by (simp add: numericValue_def)
  have c: "numericValue rt (Text (pre @ ds @ post)) = parseFloat rt ds"
    if "\<forall>c \<in> set ds. is_digit c" and "\<forall>c \<in> set pre \<union> set post. non_numeric c"
  proof -
    from that have "filter (\<lambda>c. \<not> non_numeric c) (pre @ ds @ post) = ds"
      by (rule filter_numeric_sandwich)
    then show ?thesis
      by (simp only: numericValue_def counter_value.case replace_all_empty)
  qed
  show ?thesis using a b c by metis
qed

theorem numericValue_parses_digits_and_dots_witness:
  "(let rt = \<lparr>parseFloat = (\<lambda>s. if s = ''92'' then Num 92 else NaN),
              toLocaleString = (\<lambda>x. ''n'')\<rparr>
    in ''92'' \<noteq> [] \<and> length ''92'' \<le> 15
       \<and> is_digit CHR ''9'' \<and> is_digit CHR ''2'' \<and> non_numeric CHR ''%''
       \<and> parseFloat rt ''92'' = Num (of_nat (digits_value ''92''))
       \<and> numericValue rt (Text ''92%'') = parseFloat rt ''92''
       \<and> numericValue rt (Text ''92%'') = Num 92
       \<and> numericValue rt (Number (Num 86)) = Num 86)"
proof -
  let ?rt = "\<lparr>parseFloat = (\<lambda>s. if s = ''92'' then Num 92 else NaN),
              toLocaleString = (\<lambda>x. ''n'')\<rparr>"
  have d: "\<forall>c \<in> set ''92''. is_digit c" by (simp add: is_digit_def)
  have j: "\<forall>c \<in> set [] \<union> set ''%''. non_numeric c" by (simp add: non_numeric_def is_digit_def)
  have v: "digits_value ''92'' = 92" by (simp add: digits_value_def)
  have pf: "parseFloat ?rt ''92'' = Num (of_nat (digits_value ''92''))" by (simp add: v)
  have ne: "''92'' \<noteq> [] \<and> length ''92'' \<le> 15" by simp
  note inst = numericValue_parses_digits_and_dots [of ?rt "''92%''" "Num 86" "''92''" "[]" "''%''"]
  from inst d j have p1: "numericValue ?rt (Text ([] @ ''92'' @ ''%'')) = parseFloat ?rt ''92''"
    by blast
  from inst d j pf ne
  have p2: "numericValue ?rt (Text ([] @ ''92'' @ ''%'')) = Num (of_nat (digits_value ''92''))"
    by blast
  from inst have n: "numericValue ?rt (Number (Num 86)) = Num 86" by blast
  from d j have cls: "is_digit CHR ''9'' \<and> is_digit CHR ''2'' \<and> non_numeric CHR ''%''" by simp
  from p1 have q1: "numericValue ?rt (Text ''92%'') = parseFloat ?rt ''92''" by simp
  from p2 have q2: "numericValue ?rt (Text ''92%'') = Num 92" by (simp add: v)
  show ?thesis
    unfolding Let_def using ne cls pf q1 q2 n by blast
qed

subsection \<open>Counter: one-shot trigger\<close>

lemma counter_inv_mount: "counter_inv rt props (AnimatedCounter_mount rt props)"
  by (simp add: counter_inv_def AnimatedCounter_mount_def inView_effect_def)

lemma mount_not_inView: "\<not> isInView (AnimatedCounter_mount rt props)"
  by (simp add: AnimatedCounter_mount_def inView_effect_def)

lemma counter_inv_step:
  assumes "counter_inv rt props s"
  shows "counter_inv rt props (counter_step rt props s e)"
proof (cases e)
  case (Intersect b)
  with assms show ?thesis
    by (auto simp: counter_inv_def on_intersect_def useInView_once_def inView_effect_def
        motionValue_set_def Let_def split: if_splits)
next
  case (SpringChange latest)
  with assms show ?thesis
    by (auto simp: counter_inv_def on_spring_change_def split: if_splits)
qed

lemma counter_inv_foldl:
  "counter_inv rt props s \<Longrightarrow> counter_inv rt props (foldl (counter_step rt props) s evs)"
  by (induction evs arbitrary: s) (simp_all add: counter_inv_step)

lemma step_keeps_inView: "isInView s \<Longrightarrow> isInView (counter_step rt props s e)"
  by (cases e)
    (simp_all add: on_intersect_def useInView_once_def on_spring_change_def Let_def)

lemma foldl_keeps_inView: "isInView s \<Longrightarrow> isInView (foldl (counter_step rt props) s evs)"
  by (induction evs arbitrary: s) (simp_all add: step_keeps_inView)

lemma step_stays_hidden:
  "\<not> isInView s \<Longrightarrow> e \<noteq> Intersect True \<Longrightarrow> \<not> isInView (counter_step rt props s e)"
  by (cases e)
    (auto simp: on_intersect_def useInView_once_def on_spring_change_def Let_def)

lemma foldl_stays_hidden:
  "\<not> isInView s \<Longrightarrow> \<forall>e \<in> set evs. e \<noteq> Intersect True \<Longrightarrow>
   \<not> isInView (foldl (counter_step rt props) s evs)"
  by (induction evs arbitrary: s) (simp_all add: step_stays_hidden)

lemma step_enters_view: "isInView (counter_step rt props s (Intersect True))"
  by (simp add: on_intersect_def useInView_once_def inView_effect_def motionValue_set_def Let_def)

lemma foldl_enters_view:
  "Intersect True \<in> set evs \<Longrightarrow> isInView (foldl (counter_step rt props) s evs)"
proof (induction evs arbitrary: s)
  case Nil
  then show ?case by simp
next
  case (Cons e evs)
  show ?case
  proof (cases "e = Intersect True")
    case True
    have "isInView (counter_step rt props s e)"
      unfolding True by (rule step_enters_view)
    then have "isInView (foldl (counter_step rt props) (counter_step rt props s e) evs)"
      by (rule foldl_keeps_inView)
    then show ?thesis by simp
  next
    case False
    with Cons show ?thesis by simp
  qed
qed

lemma intersect_after_trigger: "isInView s \<Longrightarrow> counter_step rt props s (Intersect b) = s"
  by (simp add: on_intersect_def useInView_once_def)

lemma hidden_report_is_noop:
  "\<not> isInView s \<Longrightarrow> counter_step rt props s (Intersect False) = s"
  by (simp add: on_intersect_def useInView_once_def)

lemma foldl_hidden_reports:
  "\<not> isInView s \<Longrightarrow> \<forall>e \<in> set evs. e = Intersect False \<Longrightarrow>
   foldl (counter_step rt props) s evs = s"
proof (induction evs arbitrary: s)
  case Nil
  then show ?case by simp
next
  case (Cons e evs)
  from Cons.prems have e: "e = Intersect False" by simp
  have "counter_step rt props s e = s"
    unfolding e using Cons.prems(1) by (rule hidden_report_is_noop)
  with Cons show ?case by simp
qed

lemma only_hidden_reports:
  assumes "\<forall>e \<in> set evs. e \<noteq> Intersect True" and "\<forall>e \<in> set evs. \<forall>latest. e \<noteq> SpringChange latest"
  shows "\<forall>e \<in> set evs. e = Intersect False"
proof
  fix e assume "e \<in> set evs"
  with assms have "e \<noteq> Intersect True" and "\<forall>latest. e \<noteq> SpringChange latest" by blast+
  then show "e = Intersect False" by (cases e) auto
qed

lemma spring_change_writes_text:
  "textContent (counter_step rt props s (SpringChange latest))
     = toLocaleString rt (Math_floor latest) @ suffix props"
  by (simp add: on_spring_change_def)

text \<open>
  Claim C3. The counter is rendered as \<open>0\<close> followed by the suffix. Over any sequence of
  visibility reports in which none says that the element is in the viewport, and in which
  the spring, at rest since its source has not been set, reports no change, the text
  stays so and the motion value is never set. Over any sequence of visibility reports and
  spring changes whatever, the motion value is set at most once, namely to the numeric
  target on the first report of visibility; once in view, a visibility report of either
  kind leaves the state as it is.
\<close>

theorem AnimatedCounter_zero_until_visible_then_once:
  "textContent (AnimatedCounter_mount rt props) = ''0'' @ suffix props
   \<and> ((\<forall>e \<in> set evs. e \<noteq> Intersect True) \<and> (\<forall>e \<in> set evs. \<forall>latest. e \<noteq> SpringChange latest)
        \<longrightarrow> textContent (counter_run rt props evs) = ''0'' @ suffix props
            \<and> set_calls (counter_run rt props evs) = [])
   \<and> ((\<forall>e \<in> set evs. e \<noteq> Intersect True) \<longrightarrow> set_calls (counter_run rt props evs) = [])
   \<and> (Intersect True \<in> set evs \<longrightarrow>
        set_calls (counter_run rt props evs) = [numericValue rt (value_prop props)])
   \<and> length (set_calls (counter_run rt props evs)) \<le> 1
   \<and> (isInView s \<longrightarrow> counter_step rt props s (Intersect b) = s)"
proof -
  let ?r = "counter_run rt props evs"
  have inv: "counter_inv rt props ?r"
    unfolding counter_run_def using counter_inv_mount by (rule counter_inv_foldl)
  have a: "textContent (AnimatedCounter_mount rt props) = ''0'' @ suffix props"
    by (simp add: AnimatedCounter_mount_def inView_effect_def)
  have b0: "(\<forall>e \<in> set evs. e \<noteq> Intersect True) \<longrightarrow> set_calls ?r = []"
  proof
    assume "\<forall>e \<in> set evs. e \<noteq> Intersect True"
    with mount_not_inView have "\<not> isInView ?r"
      unfolding counter_run_def by (rule foldl_stays_hidden)
    with inv show "set_calls ?r = []"
      by (simp add: counter_inv_def)
  qed
  have b: "(\<forall>e \<in> set evs. e \<noteq> Intersect True) \<and> (\<forall>e \<in> set evs. \<forall>latest. e \<noteq> SpringChange latest)
        \<longrightarrow> textContent ?r = ''0'' @ suffix props \<and> set_calls ?r = []"
  proof
    assume h: "(\<forall>e \<in> set evs. e \<noteq> Intersect True)
        \<and> (\<forall>e \<in> set evs. \<forall>latest. e \<noteq> SpringChange latest)"
    then have "\<forall>e \<in> set evs. e = Intersect False"
      by (intro only_hidden_reports) blast+
    with mount_not_inView have "?r = AnimatedCounter_mount rt props"
      unfolding counter_run_def by (rule foldl_hidden_reports)
    then have "textContent ?r = ''0'' @ suffix props" by (simp only: a)
    moreover from h b0 have "set_calls ?r = []" by blast
    ultimately show "textContent ?r = ''0'' @ suffix props \<and> set_calls ?r = []" ..
  qed
  have c: "Intersect True \<in> set evs \<longrightarrow> set_calls ?r = [numericValue rt (value_prop props)]"
  proof
    assume "Intersect True \<in> set evs"
    then have "isInView ?r" unfolding counter_run_def by (rule foldl_enters_view)
    with inv show "set_calls ?r = [numericValue rt (value_prop props)]"
      by (simp add: counter_inv_def)
  qed
  have d: "length (set_calls ?r) \<le> 1"
    using inv by (simp add: counter_inv_def split: if_splits)
  have e: "isInView s \<longrightarrow> counter_step rt props s (Intersect b) = s"
    using intersect_after_trigger by blast
  show ?thesis using a b b0 c d e by blast
qed

theorem AnimatedCounter_zero_until_visible_then_once_witness:
  "(let rt = \<lparr>parseFloat = (\<lambda>s. if s = ''92'' then Num 92 else NaN),
              toLocaleString = (\<lambda>x. ''n'')\<rparr>;
        p = \<lparr>value_prop = Text ''92%'', suffix_prop = Some ''%''\<rparr>;
        q = \<lparr>value_prop = Number (Num 86), suffix_prop = None\<rparr>;
        s = \<lparr>isInView = True, motionValue = Num 86, set_calls = [Num 86], textContent = ''86''\<rparr>
    in Intersect False \<noteq> Intersect True
       \<and> textContent (counter_run rt p [Intersect False, Intersect False]) = ''0%''
       \<and> set_calls (counter_run rt p [Intersect False, Intersect False]) = []
       \<and> Intersect True \<in> set [Intersect True, Intersect False, Intersect True]
       \<and> set_calls (counter_run rt q [Intersect True, Intersect False, Intersect True]) = [Num 86]
       \<and> isInView s
       \<and> counter_step rt q s (Intersect True) = s)"
proof -
  let ?rt = "\<lparr>parseFloat = (\<lambda>s. if s = ''92'' then Num 92 else NaN),
              toLocaleString = (\<lambda>x. ''n'')\<rparr>"
  let ?p = "\<lparr>value_prop = Text ''92%'', suffix_prop = Some ''%''\<rparr>"
  let ?q = "\<lparr>value_prop = Number (Num 86), suffix_prop = None\<rparr>"
  let ?s = "\<lparr>isInView = True, motionValue = Num 86, set_calls = [Num 86], textContent = ''86''\<rparr>"
  note t1 = AnimatedCounter_zero_until_visible_then_once
    [of ?rt ?p "[Intersect False, Intersect False]" ?s True]
  note t2 = AnimatedCounter_zero_until_visible_then_once
    [of ?rt ?q "[Intersect True, Intersect False, Intersect True]" ?s True]
  have h1: "(\<forall>e \<in> set [Intersect False, Intersect False]. e \<noteq> Intersect True)
      \<and> (\<forall>e \<in> set [Intersect False, Intersect False]. \<forall>latest. e \<noteq> SpringChange latest)"
    by simp
  from t1 h1 have x1: "textContent (counter_run ?rt ?p [Intersect False, Intersect False])
        = ''0'' @ suffix ?p"
    and x2: "set_calls (counter_run ?rt ?p [Intersect False, Intersect False]) = []"
    by blast+
  have sfx: "''0'' @ suffix ?p = ''0%''" by (simp add: suffix_def)
  have h2: "Intersect True \<in> set [Intersect True, Intersect False, Intersect True]" by simp
  from t2 h2
  have "set_calls (counter_run ?rt ?q [Intersect True, Intersect False, Intersect True])
        = [numericValue ?rt (value_prop ?q)]"
    by blast
  then have x3: "set_calls (counter_run ?rt ?q [Intersect True, Intersect False, Intersect True])
        = [Num 86]"
    by (simp add: numericValue_def)
  have h3: "isInView ?s" by simp
  from t2 h3 have x4: "counter_step ?rt ?q ?s (Intersect True) = ?s" by blast
  have x0: "Intersect False \<noteq> Intersect True" by simp
  show ?thesis
    unfolding Let_def using x0 x1 [unfolded sfx] x2 h2 x3 h3 x4 by blast
qed

end
